theory Spec2Isabelle
  imports Complex_Main
begin

section \<open>Data model\<close>

text \<open>
  Numbers of the card are modelled as integers: \<open>num_hours\<close> and \<open>offset\<close> are the
  integers \<open>parseInt\<close> yields, array lengths and loop counters are integers, and
  a timestamp is the integer number of milliseconds since the epoch that
  \<open>new Date(fs.datetime).getTime()\<close> yields for a parseable \<open>datetime\<close>. Strings
  that do not parse (NaN) and magnitudes beyond 2^53 are outside this model.
\<close>

record ForecastSegment =
  datetime :: int
  condition :: string
  temperature :: real

type_synonym ConditionSpan = "string \<times> int"

text \<open>
  The fields of the source's \<open>HourTemperature\<close> are \<open>hour\<close> and \<open>temperature\<close>; the
  second one is renamed here, since \<open>temperature\<close> is a field of \<open>ForecastSegment\<close>.
\<close>

record HourTemperature =
  hour :: string
  temperature_label :: string

datatype error = TypeError

text \<open>
  \<open>xs[i]\<close> on a JavaScript array: the element when \<open>0 \<le> i < xs.length\<close>, and
  \<open>undefined\<close> (here \<open>None\<close>) otherwise, also for a negative index. Reading a
  property of \<open>undefined\<close> throws a \<open>TypeError\<close>.
\<close>

definition elem_at :: "'a list \<Rightarrow> int \<Rightarrow> 'a option" where
  "elem_at xs i = (if 0 \<le> i \<and> i < int (length xs) then Some (xs ! nat i) else None)"

section \<open>Condition run-length encoder\<close>

text \<open>The three variables the loop of \<open>getConditionListFromForecast\<close> updates.\<close>

record enc_state =
  lastCond :: string
  j :: nat
  res :: "ConditionSpan list"

text \<open>
  The \<open>for\<close> loop of \<open>getConditionListFromForecast\<close>, from the value \<open>i\<close> of its
  counter. \<open>forecast[i].condition\<close> and \<open>res[j][1]++\<close> throw when the array has no
  such element.
\<close>

function cond_loop ::
  "ForecastSegment list \<Rightarrow> int \<Rightarrow> int \<Rightarrow> int \<Rightarrow> int \<Rightarrow> enc_state \<Rightarrow> error + enc_state"
where
  "cond_loop forecast numHours hoursPerSegment offset i s =
     (if i * hoursPerSegment < numHours + offset * hoursPerSegment then
        (case elem_at forecast i of
           None \<Rightarrow> Inl TypeError
         | Some fs \<Rightarrow>
             if condition fs = lastCond s then
               (case elem_at (res s) (int (j s)) of
                  None \<Rightarrow> Inl TypeError
                | Some (c, n) \<Rightarrow>
                    cond_loop forecast numHours hoursPerSegment offset (i + 1)
                      (s\<lparr>res := (res s)[j s := (c, n + 1)]\<rparr>))
             else
               cond_loop forecast numHours hoursPerSegment offset (i + 1)
                 \<lparr>lastCond = condition fs, j = j s + 1,
                  res = res s @ [(condition fs, 1)]\<rparr>)
      else Inr s)"
  by pat_completeness auto
termination
  by (relation "measure (\<lambda>(forecast, numHours, hoursPerSegment, offset, i, s).
        nat (int (length forecast) - i))")
     (auto simp: elem_at_def split: if_splits)

declare cond_loop.simps [simp del]

definition getConditionListFromForecast ::
  "ForecastSegment list \<Rightarrow> int \<Rightarrow> int \<Rightarrow> int \<Rightarrow> error + ConditionSpan list"
where
  "getConditionListFromForecast forecast numHours hoursPerSegment offset =
     (case elem_at forecast offset of
        None \<Rightarrow> Inl TypeError
      | Some fs0 \<Rightarrow>
          (case cond_loop forecast numHours hoursPerSegment offset (offset + 1)
                  \<lparr>lastCond = condition fs0, j = 0, res = [(condition fs0, 1)]\<rparr> of
             Inl e \<Rightarrow> Inl e
           | Inr s \<Rightarrow> Inr (res s)))"

text \<open>
  The same loop, returning the indices \<open>i\<close> at which its body is entered (where it
  reads \<open>forecast[i]\<close>), in order. The length of this list is the number of
  iterations of the loop.
\<close>

function cond_loop_reads ::
  "ForecastSegment list \<Rightarrow> int \<Rightarrow> int \<Rightarrow> int \<Rightarrow> int \<Rightarrow> enc_state \<Rightarrow> int list"
where
  "cond_loop_reads forecast numHours hoursPerSegment offset i s =
     (if i * hoursPerSegment < numHours + offset * hoursPerSegment then
        i # (case elem_at forecast i of
           None \<Rightarrow> []
         | Some fs \<Rightarrow>
             if condition fs = lastCond s then
               (case elem_at (res s) (int (j s)) of
                  None \<Rightarrow> []
                | Some (c, n) \<Rightarrow>
                    cond_loop_reads forecast numHours hoursPerSegment offset (i + 1)
                      (s\<lparr>res := (res s)[j s := (c, n + 1)]\<rparr>))
             else
               cond_loop_reads forecast numHours hoursPerSegment offset (i + 1)
                 \<lparr>lastCond = condition fs, j = j s + 1,
                  res = res s @ [(condition fs, 1)]\<rparr>)
      else [])"
  by pat_completeness auto
termination
  by (relation "measure (\<lambda>(forecast, numHours, hoursPerSegment, offset, i, s).
        nat (int (length forecast) - i))")
     (auto simp: elem_at_def split: if_splits)

declare cond_loop_reads.simps [simp del]

text \<open>
  The indices of \<open>forecast\<close> that \<open>getConditionListFromForecast\<close> reads: \<open>offset\<close>
  first, then those of the loop, which runs only when the first read has not thrown.
\<close>

definition encoder_reads :: "ForecastSegment list \<Rightarrow> int \<Rightarrow> int \<Rightarrow> int \<Rightarrow> int list" where
  "encoder_reads forecast numHours hoursPerSegment offset =
     offset # (case elem_at forecast offset of
        None \<Rightarrow> []
      | Some fs0 \<Rightarrow>
          cond_loop_reads forecast numHours hoursPerSegment offset (offset + 1)
            \<lparr>lastCond = condition fs0, j = 0, res = [(condition fs0, 1)]\<rparr>)"

definition encoder_iterations :: "ForecastSegment list \<Rightarrow> int \<Rightarrow> int \<Rightarrow> int \<Rightarrow> nat" where
  "encoder_iterations forecast numHours hoursPerSegment offset =
     (case elem_at forecast offset of
        None \<Rightarrow> 0
      | Some fs0 \<Rightarrow>
          length (cond_loop_reads forecast numHours hoursPerSegment offset (offset + 1)
            \<lparr>lastCond = condition fs0, j = 0, res = [(condition fs0, 1)]\<rparr>))"

section \<open>The platform: locale, time zone, colour library, icon table\<close>

text \<open>
  What the card takes from outside this file is a parameter of the model:
  \<^item> \<open>localize\<close>, and \<open>formatTime\<close> and \<open>formatNumber\<close> at the locale of \<open>hass\<close>;
  \<^item> \<open>LocalTZA\<close>, the offset in milliseconds of local time at an instant;
  \<^item> \<open>ICONS\<close>, the own keys of the table \<open>ICONS\<close>, an object declared in
    \<open>conditions.ts\<close>: the recognized condition identifiers;
  \<^item> the three tests of the package \<open>is-valid-css-color\<close>.
\<close>

record platform =
  localize :: "string \<Rightarrow> string"
  formatTime :: "int \<Rightarrow> string"
  formatNumber :: "real \<Rightarrow> string"
  LocalTZA :: "int \<Rightarrow> int"
  ICONS :: "string list"
  isValidRGB :: "string \<Rightarrow> bool"
  isValidColorName :: "string \<Rightarrow> bool"
  isValidHSL :: "string \<Rightarrow> bool"

section \<open>Strings\<close>

text \<open>\<open>s.includes(sub)\<close>.\<close>

fun str_includes :: "string \<Rightarrow> string \<Rightarrow> bool" where
  "str_includes [] sub = (sub = [])"
| "str_includes (c # cs) sub = (take (length sub) (c # cs) = sub \<or> str_includes cs sub)"

text \<open>\<open>s.replace(pat, rep)\<close> with a string pattern: the first occurrence only.\<close>

fun replace_first :: "string \<Rightarrow> string \<Rightarrow> string \<Rightarrow> string" where
  "replace_first [] pat rep = (if pat = [] then rep else [])"
| "replace_first (c # cs) pat rep =
     (if take (length pat) (c # cs) = pat then rep @ drop (length pat) (c # cs)
      else c # replace_first cs pat rep)"

text \<open>
  \<open>s.replace(/\{hoursPerSegment\}/g, rep)\<close>: every occurrence, left to right, for a
  replacement without \<open>$\<close> patterns (\<open>formatNumber\<close> yields digits and separators).
\<close>

fun replace_hoursPerSegment :: "string \<Rightarrow> string \<Rightarrow> string" where
  "replace_hoursPerSegment [] rep = []"
| "replace_hoursPerSegment (c # cs) rep =
     (if take 17 (c # cs) = ''{hoursPerSegment}''
      then rep @ replace_hoursPerSegment (drop 16 cs) rep
      else c # replace_hoursPerSegment cs rep)"

text \<open>\<open>xs.join(sep)\<close>.\<close>

fun join :: "string list \<Rightarrow> string \<Rightarrow> string" where
  "join [] sep = []"
| "join [x] sep = x"
| "join (x # y # xs) sep = x @ sep @ join (y # xs) sep"

section \<open>Segment resolution detector\<close>

text \<open>
  \<open>Math.round(delta / 1000 / 3600)\<close> for an integer \<open>delta\<close>: \<open>Math.round\<close> is the
  floor of its argument plus one half (a tie goes up).
\<close>

definition round_hours :: "int \<Rightarrow> int" where
  "round_hours delta = (delta + 1800000) div 3600000"

definition determineHoursPerSegment :: "ForecastSegment list \<Rightarrow> int" where
  "determineHoursPerSegment forecast =
     (if length forecast < 2 then 1
      else let fs1 = forecast ! 0; fs2 = forecast ! 1;
               delta = datetime fs2 - datetime fs1
           in round_hours delta)"

section \<open>Temperature extractor\<close>

text \<open>
  A number that can be infinite or NaN: \<open>numHours / hoursPerSegment\<close> is one of these
  when \<open>hoursPerSegment\<close> is 0.
\<close>

datatype jsnum = Num int | PosInfinity | NegInfinity | NaN

text \<open>\<open>Math.floor(a / b)\<close> for integers \<open>a\<close> and \<open>b\<close>.\<close>

definition floor_quot :: "int \<Rightarrow> int \<Rightarrow> jsnum" where
  "floor_quot a b =
     (if b = 0 then (if 0 < a then PosInfinity else if a < 0 then NegInfinity else NaN)
      else Num (a div b))"

text \<open>\<open>i < q + offset\<close>; a comparison with NaN is false.\<close>

fun less_plus :: "int \<Rightarrow> jsnum \<Rightarrow> int \<Rightarrow> bool" where
  "less_plus i (Num q) offset = (i < q + offset)"
| "less_plus i PosInfinity offset = True"
| "less_plus i NegInfinity offset = False"
| "less_plus i NaN offset = False"

definition formatHour :: "platform \<Rightarrow> int \<Rightarrow> string" where
  "formatHour P time =
     (let formatted = formatTime P time
      in if str_includes formatted ''AM'' \<or> str_includes formatted ''PM''
         then replace_first formatted '':00'' []
         else formatted)"

function temp_loop ::
  "platform \<Rightarrow> ForecastSegment list \<Rightarrow> int \<Rightarrow> int \<Rightarrow> int \<Rightarrow> int \<Rightarrow>
   HourTemperature list \<Rightarrow> error + HourTemperature list"
where
  "temp_loop P forecast numHours hoursPerSegment offset i temperatures =
     (if less_plus i (floor_quot numHours hoursPerSegment) offset then
        (case elem_at forecast i of
           None \<Rightarrow> Inl TypeError
         | Some fs \<Rightarrow>
             temp_loop P forecast numHours hoursPerSegment offset (i + 1)
               (temperatures @
                 [\<lparr>hour = formatHour P (datetime fs),
                   temperature_label = formatNumber P (temperature fs)\<rparr>]))
      else Inr temperatures)"
  by pat_completeness auto
termination
  by (relation "measure (\<lambda>(P, forecast, numHours, hoursPerSegment, offset, i, temperatures).
        nat (int (length forecast) - i))")
     (auto simp: elem_at_def split: if_splits)

declare temp_loop.simps [simp del]

definition getTemperatures ::
  "platform \<Rightarrow> ForecastSegment list \<Rightarrow> int \<Rightarrow> int \<Rightarrow> int \<Rightarrow> error + HourTemperature list"
where
  "getTemperatures P forecast numHours hoursPerSegment offset =
     temp_loop P forecast numHours hoursPerSegment offset offset []"

text \<open>The indices at which the loop of \<open>getTemperatures\<close> reads \<open>forecast[i]\<close>.\<close>

function temp_loop_reads :: "ForecastSegment list \<Rightarrow> int \<Rightarrow> int \<Rightarrow> int \<Rightarrow> int \<Rightarrow> int list"
where
  "temp_loop_reads forecast numHours hoursPerSegment offset i =
     (if less_plus i (floor_quot numHours hoursPerSegment) offset then
        i # (case elem_at forecast i of
           None \<Rightarrow> []
         | Some fs \<Rightarrow> temp_loop_reads forecast numHours hoursPerSegment offset (i + 1))
      else [])"
  by pat_completeness auto
termination
  by (relation "measure (\<lambda>(forecast, numHours, hoursPerSegment, offset, i).
        nat (int (length forecast) - i))")
     (auto simp: elem_at_def split: if_splits)

declare temp_loop_reads.simps [simp del]

definition temperature_reads :: "ForecastSegment list \<Rightarrow> int \<Rightarrow> int \<Rightarrow> int \<Rightarrow> int list" where
  "temperature_reads forecast numHours hoursPerSegment offset =
     temp_loop_reads forecast numHours hoursPerSegment offset offset"

section \<open>Daily-forecast classifier\<close>

text \<open>
  \<open>new Date(t).getDate()\<close> is the day of the month, 1 to 31, of the local time of
  the instant \<open>t\<close>. \<open>Day\<close> numbers the days from 1 January 1970; \<open>DateFromDay\<close>
  is the day of the month of such a day in the proleptic Gregorian calendar,
  computed over the 400-year cycle of 146097 days with the year taken to start
  on 1 March.
\<close>

definition msPerDay :: int where
  "msPerDay = 86400000"

definition Day :: "int \<Rightarrow> int" where
  "Day t = t div msPerDay"

definition LocalTime :: "platform \<Rightarrow> int \<Rightarrow> int" where
  "LocalTime P t = t + LocalTZA P t"

definition DateFromDay :: "int \<Rightarrow> int" where
  "DateFromDay d =
     (let doe = (d + 719468) mod 146097;
          yoe = (doe - doe div 1460 + doe div 36524 - doe div 146096) div 365;
          doy = doe - (365 * yoe + yoe div 4 - yoe div 100);
          mp = (5 * doy + 2) div 153
      in doy - (153 * mp + 2) div 5 + 1)"

definition getDate :: "platform \<Rightarrow> int \<Rightarrow> int" where
  "getDate P t = DateFromDay (Day (LocalTime P t))"

text \<open>
  \<open>new Set(xs)\<close> keeps the first occurrence of each value, in insertion order; its
  \<open>size\<close> is the length of the list kept.
\<close>

definition Set_add :: "'a list \<Rightarrow> 'a \<Rightarrow> 'a list" where
  "Set_add s x = (if x \<in> set s then s else s @ [x])"

definition Set_new :: "'a list \<Rightarrow> 'a list" where
  "Set_new xs = foldl Set_add [] xs"

definition isForecastDaily :: "platform \<Rightarrow> ForecastSegment list \<Rightarrow> bool" where
  "isForecastDaily P forecast =
     (let dates = map (\<lambda>f. getDate P (datetime f)) forecast;
          uniqueDates = Set_new dates
      in int (length uniqueDates) \<ge> int (length forecast) - 1)"

section \<open>Color configuration validator\<close>

text \<open>
  A \<open>ColorConfig\<close> is given by its \<open>Object.entries\<close>, a list of pairs whose keys
  are distinct. A \<open>ColorMap\<close> is a \<open>Map\<close>: its entries in insertion order, \<open>set\<close>
  replacing the value of a key it already holds.
\<close>

type_synonym ColorConfig = "(string \<times> string) list"

type_synonym ColorMap = "(string \<times> string) list"

fun Map_set :: "ColorMap \<Rightarrow> string \<Rightarrow> string \<Rightarrow> ColorMap" where
  "Map_set [] k v = [(k, v)]"
| "Map_set ((k', v') # m) k v =
     (if k' = k then (k, v) # m else (k', v') # Map_set m k v)"

record ColorSettings =
  validColors :: "ColorMap option"
  warnings :: "string list"

text \<open>
  \<open>key in obj\<close> for an object with the own keys \<open>keys\<close>: the operator follows the
  prototype chain, so it holds for an own key and for the name of a property that
  every object inherits from \<open>Object.prototype\<close>.
\<close>

definition Object_prototype_names :: "string list" where
  "Object_prototype_names =
     [''constructor'', ''__defineGetter__'', ''__defineSetter__'', ''hasOwnProperty'',
      ''__lookupGetter__'', ''__lookupSetter__'', ''isPrototypeOf'',
      ''propertyIsEnumerable'', ''toString'', ''valueOf'', ''__proto__'',
      ''toLocaleString'']"

definition has_property :: "string list \<Rightarrow> string \<Rightarrow> bool" where
  "has_property keys key = (key \<in> set keys \<or> key \<in> set Object_prototype_names)"

definition isValidColor :: "platform \<Rightarrow> string \<Rightarrow> string \<Rightarrow> bool" where
  "isValidColor P key color =
     (if \<not> has_property (ICONS P) key then False
      else if \<not> (isValidRGB P color \<or> isValidColorName P color \<or> isValidHSL P color)
      then False
      else True)"

text \<open>The body of the \<open>forEach\<close>, on the pair of the two accumulators.\<close>

definition color_step ::
  "platform \<Rightarrow> ColorMap \<times> string list \<Rightarrow> string \<times> string \<Rightarrow> ColorMap \<times> string list"
where
  "color_step P acc kv =
     (case acc of (vc, ws) \<Rightarrow> case kv of (k, v) \<Rightarrow>
        if isValidColor P k v then (Map_set vc k v, ws)
        else (vc, ws @ [k @ '': '' @ v]))"

definition getColorSettings :: "platform \<Rightarrow> ColorConfig option \<Rightarrow> ColorSettings" where
  "getColorSettings P colorConfig =
     (case colorConfig of
        None \<Rightarrow> \<lparr>validColors = None, warnings = []\<rparr>
      | Some cfg \<Rightarrow>
          (case foldl (color_step P) ([], []) cfg of
             (vc, ws) \<Rightarrow> \<lparr>validColors = Some vc, warnings = ws\<rparr>))"

section \<open>Notions of the specification\<close>

text \<open>The conditions a span list stands for: each condition repeated \<open>runLength\<close> times.\<close>

definition expand :: "ConditionSpan list \<Rightarrow> string list" where
  "expand spans = concat (map (\<lambda>(c, n). replicate (nat n) c) spans)"

definition runLength_sum :: "ConditionSpan list \<Rightarrow> int" where
  "runLength_sum spans = sum_list (map snd spans)"

text \<open>
  The requested window, as the specification words it: the forecast indices from \<open>i\<close>
  on that are still within the display window measured in hours, that is with
  \<open>index * hoursPerSegment < numHours + offset * hoursPerSegment\<close>.
\<close>

definition window_indices :: "nat \<Rightarrow> int \<Rightarrow> int \<Rightarrow> int \<Rightarrow> int \<Rightarrow> int list" where
  "window_indices len numHours hoursPerSegment offset i =
     filter (\<lambda>k. k * hoursPerSegment < numHours + offset * hoursPerSegment) [i..int len - 1]"

definition requested_window ::
  "ForecastSegment list \<Rightarrow> int \<Rightarrow> int \<Rightarrow> int \<Rightarrow> ForecastSegment list"
where
  "requested_window forecast numHours hoursPerSegment offset =
     map (\<lambda>k. forecast ! nat k)
       (window_indices (length forecast) numHours hoursPerSegment offset offset)"

text \<open>All indices of a list of reads lie within the array.\<close>

definition in_bounds :: "ForecastSegment list \<Rightarrow> int list \<Rightarrow> bool" where
  "in_bounds forecast ks = list_all (\<lambda>k. 0 \<le> k \<and> k < int (length forecast)) ks"

text \<open>Every two neighbours of the forecast are \<open>N\<close> hours apart.\<close>

definition uniform_spacing :: "ForecastSegment list \<Rightarrow> int \<Rightarrow> bool" where
  "uniform_spacing forecast N =
     list_all (\<lambda>(a, b). datetime b - datetime a = N * 3600000) (zip forecast (tl forecast))"

text \<open>
  The calendar days of a forecast, as the specification words them: each timestamp
  truncated to the day (of local time), without repetition.
\<close>

definition calendar_days :: "platform \<Rightarrow> ForecastSegment list \<Rightarrow> int list" where
  "calendar_days P forecast = remdups (map (\<lambda>f. Day (LocalTime P (datetime f))) forecast)"

text \<open>The days of the month of a forecast, as \<open>getDate\<close> gives them, without repetition.\<close>

definition month_days :: "platform \<Rightarrow> ForecastSegment list \<Rightarrow> int list" where
  "month_days P forecast = remdups (map (\<lambda>f. getDate P (datetime f)) forecast)"

text \<open>
  An entry of a color configuration is acceptable when its key is a recognized
  condition identifier and its color parses as an RGB or hex, a named, or an HSL color.
\<close>

definition acceptable :: "platform \<Rightarrow> string \<times> string \<Rightarrow> bool" where
  "acceptable P kv =
     (fst kv \<in> set (ICONS P) \<and>
      (isValidRGB P (snd kv) \<or> isValidColorName P (snd kv) \<or> isValidHSL P (snd kv)))"

definition warning_text :: "string \<times> string \<Rightarrow> string" where
  "warning_text kv = fst kv @ '': '' @ snd kv"

text \<open>
  The invariant of the encoder's loop: \<open>j\<close> is the index of the last span, \<open>lastCond\<close> is
  its condition, every \<open>runLength\<close> is at least 1, and neighbouring spans differ.
\<close>

definition enc_inv :: "enc_state \<Rightarrow> bool" where
  "enc_inv s \<longleftrightarrow>
     res s \<noteq> [] \<and> j s = length (res s) - 1 \<and> lastCond s = fst (last (res s)) \<and>
     list_all (\<lambda>p. 1 \<le> snd p) (res s) \<and> distinct_adj (map fst (res s))"

section \<open>Rendering\<close>

text \<open>
  The properties handed to \<open>weather-bar\<close>, and what \<open>render\<close> returns: the error
  card of \<open>_showError\<close>, or the card with its header, its warnings in the order of
  the template, and the bar.
\<close>

record WeatherBar =
  bar_conditions :: "ConditionSpan list"
  bar_temperatures :: "HourTemperature list"
  bar_icons :: bool
  bar_colors :: "ColorMap option"
  bar_hide_hours :: bool
  bar_hide_temperatures :: bool

datatype TemplateResult =
  ErrorCard string
| HaCard string "string list" WeatherBar

text \<open>
  \<open>numHours % hoursPerSegment !== 0\<close>: the remainder is NaN, which differs from 0,
  when \<open>hoursPerSegment\<close> is 0, and is 0 exactly when \<open>hoursPerSegment\<close> divides
  \<open>numHours\<close> otherwise.
\<close>

definition rem_nonzero :: "int \<Rightarrow> int \<Rightarrow> bool" where
  "rem_nonzero a b = (b = 0 \<or> a mod b \<noteq> 0)"

text \<open>
  The configuration after \<open>setConfig\<close>; \<open>num_hours\<close> and \<open>offset\<close> hold the integer
  that \<open>parseInt\<close> reads, \<open>None\<close> when the option is not set.
\<close>

record HourlyWeatherCardConfig =
  entity :: string
  name :: string
  num_hours :: "int option"
  offset :: "int option"
  colors :: "ColorConfig option"
  icons :: bool
  hide_hours :: bool
  hide_temperatures :: bool

definition render ::
  "platform \<Rightarrow> (string \<Rightarrow> ForecastSegment list option) \<Rightarrow> HourlyWeatherCardConfig \<Rightarrow>
   error + TemplateResult"
where
  "render P states config =
     (case states (entity config) of
        None \<Rightarrow> Inl TypeError
      | Some forecast \<Rightarrow>
          let numHours = (case num_hours config of None \<Rightarrow> 12 | Some n \<Rightarrow> n);
              off = (case offset config of None \<Rightarrow> 0 | Some n \<Rightarrow> n);
              hoursPerSegment = determineHoursPerSegment forecast
          in if numHours > (int (length forecast) - off) * hoursPerSegment
             then Inr (ErrorCard (localize P ''errors.too_many_hours_requested''))
             else
               let daily = isForecastDaily P forecast
               in case getConditionListFromForecast forecast numHours hoursPerSegment off of
                    Inl e \<Rightarrow> Inl e
                  | Inr conditionList \<Rightarrow>
               case getTemperatures P forecast numHours hoursPerSegment off of
                    Inl e \<Rightarrow> Inl e
                  | Inr temperatures \<Rightarrow>
               let numHoursNotMultiple = rem_nonzero numHours hoursPerSegment;
                   colorSettings = getColorSettings P (colors config)
               in Inr (HaCard (name config)
                    ((if daily then [localize P ''errors.daily_forecasts''] else []) @
                     (if numHoursNotMultiple
                      then [replace_hoursPerSegment (localize P ''errors.num_hours_not_multiple'')
                              (formatNumber P (of_int hoursPerSegment))]
                      else []) @
                     (if warnings colorSettings \<noteq> []
                      then [localize P ''errors.invalid_colors'' @
                              join (warnings colorSettings) '', '']
                      else []))
                    \<lparr>bar_conditions = conditionList,
                     bar_temperatures = temperatures,
                     bar_icons = icons config,
                     bar_colors = validColors colorSettings,
                     bar_hide_hours = hide_hours config,
                     bar_hide_temperatures = hide_temperatures config\<rparr>))"

text \<open>The span list and the temperature list a rendering carries, if any.\<close>

fun rendered_conditions :: "TemplateResult \<Rightarrow> ConditionSpan list option" where
  "rendered_conditions (ErrorCard e) = None"
| "rendered_conditions (HaCard h ws bar) = Some (bar_conditions bar)"

fun rendered_temperatures :: "TemplateResult \<Rightarrow> HourTemperature list option" where
  "rendered_temperatures (ErrorCard e) = None"
| "rendered_temperatures (HaCard h ws bar) = Some (bar_temperatures bar)"

section \<open>Example inputs\<close>

text \<open>Three entries three hours apart, from midnight of 1 January 1970.\<close>

definition forecast_3h :: "ForecastSegment list" where
  "forecast_3h =
     [\<lparr>datetime = 0, condition = ''sunny'', temperature = 20\<rparr>,
      \<lparr>datetime = 10800000, condition = ''cloudy'', temperature = 18\<rparr>,
      \<lparr>datetime = 21600000, condition = ''cloudy'', temperature = 17\<rparr>]"

text \<open>A single entry.\<close>

definition forecast_single :: "ForecastSegment list" where
  "forecast_single = [\<lparr>datetime = 0, condition = ''sunny'', temperature = 20\<rparr>]"

text \<open>A platform in the UTC time zone, with two icons and three colors.\<close>

definition utc_platform :: platform where
  "utc_platform =
     \<lparr>localize = (\<lambda>key. key),
      formatTime = (\<lambda>t. ''12:00 AM''),
      formatNumber = (\<lambda>x. ''20''),
      LocalTZA = (\<lambda>t. 0),
      ICONS = [''sunny'', ''cloudy''],
      isValidRGB = (\<lambda>c. c = ''#ff0000''),
      isValidColorName = (\<lambda>c. c = ''red''),
      isValidHSL = (\<lambda>c. c = ''hsl(0, 100%, 50%)'')\<rparr>"

text \<open>A daily feed: \<open>n\<close> entries one day apart, from midnight of 1 January 1970.\<close>

definition daily_feed :: "nat \<Rightarrow> ForecastSegment list" where
  "daily_feed n =
     map (\<lambda>k. \<lparr>datetime = int k * 86400000, condition = ''sunny'', temperature = 20\<rparr>)
       [0..<n]"

text \<open>A color configuration whose only key names an inherited property.\<close>

definition inherited_colors :: ColorConfig where
  "inherited_colors = [(''toString'', ''red'')]"

definition example_states :: "string \<Rightarrow> ForecastSegment list option" where
  "example_states e = (if e = ''weather.home'' then Some forecast_3h else None)"

definition example_config :: HourlyWeatherCardConfig where
  "example_config =
     \<lparr>entity = ''weather.home'', name = ''Hourly Weather'', num_hours = None,
      offset = Some 5, colors = None, icons = False, hide_hours = False,
      hide_temperatures = False\<rparr>"

section \<open>Array reads\<close>

lemma elem_at_Some: "0 \<le> i \<Longrightarrow> i < int (length xs) \<Longrightarrow> elem_at xs i = Some (xs ! nat i)"
  by (simp add: elem_at_def)

lemma elem_at_SomeD: "elem_at xs i = Some x \<Longrightarrow> 0 \<le> i \<and> i < int (length xs)"
  by (simp add: elem_at_def split: if_splits)

section \<open>The encoder's loop\<close>

lemma expand_append: "expand (xs @ ys) = expand xs @ expand ys"
  by (simp add: expand_def)

lemma runLength_sum_append: "runLength_sum (xs @ ys) = runLength_sum xs + runLength_sum ys"
  by (simp add: runLength_sum_def)

text \<open>Incrementing the last span: the read succeeds and the invariant is kept.\<close>

lemma inv_same:
  assumes "enc_inv s"
  shows "\<exists>n. elem_at (res s) (int (j s)) = Some (lastCond s, n) \<and>
     enc_inv (s\<lparr>res := (res s)[j s := (lastCond s, n + 1)]\<rparr>) \<and>
     expand ((res s)[j s := (lastCond s, n + 1)]) = expand (res s) @ [lastCond s] \<and>
     runLength_sum ((res s)[j s := (lastCond s, n + 1)]) = runLength_sum (res s) + 1"
proof -
  from assms obtain xs c n where r: "res s = xs @ [(c, n)]"
    by (metis enc_inv_def rev_exhaust surj_pair)
  with assms have jl: "j s = length xs" and c: "lastCond s = c" and n: "1 \<le> n"
    by (auto simp: enc_inv_def)
  have "elem_at (res s) (int (j s)) = Some (lastCond s, n)"
    by (simp add: elem_at_def r jl c)
  moreover have "enc_inv (s\<lparr>res := (res s)[j s := (lastCond s, n + 1)]\<rparr>)"
    using assms n by (auto simp: enc_inv_def r c jl)
  moreover have "expand ((res s)[j s := (lastCond s, n + 1)]) = expand (res s) @ [lastCond s]"
  proof -
    have "replicate (nat (n + 1)) c = replicate (nat n) c @ [c]"
      using n by (simp add: nat_add_distrib replicate_append_same)
    then show ?thesis by (simp add: r c jl expand_def)
  qed
  moreover have "runLength_sum ((res s)[j s := (lastCond s, n + 1)]) = runLength_sum (res s) + 1"
    by (simp add: r c jl runLength_sum_def)
  ultimately show ?thesis by blast
qed

lemma inv_push:
  assumes "enc_inv s" "c \<noteq> lastCond s"
  shows "enc_inv \<lparr>lastCond = c, j = j s + 1, res = res s @ [(c, 1)]\<rparr>"
  using assms by (auto simp: enc_inv_def distinct_adj_append_iff last_map)

lemma inv_init: "enc_inv \<lparr>lastCond = c, j = 0, res = [(c, 1)]\<rparr>"
  by (simp add: enc_inv_def)

lemma window_stop:
  assumes "0 \<le> h" "\<not> i * h < numHours + off * h"
  shows "window_indices len numHours h off i = []"
proof -
  have "\<not> k * h < numHours + off * h" if "i \<le> k" for k
    using mult_right_mono [OF that assms(1)] assms(2) by linarith
  then show ?thesis by (auto simp: window_indices_def filter_empty_conv)
qed

lemma window_go:
  assumes "0 \<le> h" "i * h < numHours + off * h" "numHours + off * h \<le> int len * h"
  shows "i < int len"
    and "window_indices len numHours h off i = i # window_indices len numHours h off (i + 1)"
proof -
  show lt: "i < int len"
  proof (rule ccontr)
    assume "\<not> i < int len"
    then have "int len * h \<le> i * h" using assms(1) by (simp add: mult_right_mono)
    with assms show False by linarith
  qed
  then show "window_indices len numHours h off i = i # window_indices len numHours h off (i + 1)"
    using assms(2) by (simp add: window_indices_def upto_rec1)
qed

text \<open>
  Within coverage the loop reads inside the array only, returns, keeps the invariant,
  and appends to the spans exactly the conditions of the rest of the window.
\<close>

lemma cond_loop_spec:
  assumes "0 \<le> h" "0 \<le> i" "numHours + off * h \<le> int (length fc) * h" "enc_inv s"
  shows "\<exists>s'. cond_loop fc numHours h off i s = Inr s' \<and> enc_inv s' \<and>
           expand (res s') = expand (res s) @
              map (\<lambda>k. condition (fc ! nat k)) (window_indices (length fc) numHours h off i) \<and>
           runLength_sum (res s') = runLength_sum (res s) +
              int (length (window_indices (length fc) numHours h off i))"
  using assms
proof (induction fc numHours h off i s rule: cond_loop.induct)
  case (1 fc numHours h off i s)
  show ?case
  proof (cases "i * h < numHours + off * h")
    case False
    then show ?thesis
      using 1(3,6) by (simp add: cond_loop.simps [of fc numHours h off i s] window_stop)
  next
    case True
    note lt = window_go(1) [OF 1(3) True 1(5)]
    note win = window_go(2) [OF 1(3) True 1(5)]
    from lt 1(4) have el: "elem_at fc i = Some (fc ! nat i)" by (simp add: elem_at_def)
    show ?thesis
    proof (cases "condition (fc ! nat i) = lastCond s")
      case same: True
      from inv_same [OF 1(6)] obtain n where
        n: "elem_at (res s) (int (j s)) = Some (lastCond s, n)"
        and inv': "enc_inv (s\<lparr>res := (res s)[j s := (lastCond s, n + 1)]\<rparr>)"
        and ex: "expand ((res s)[j s := (lastCond s, n + 1)]) = expand (res s) @ [lastCond s]"
        and sm: "runLength_sum ((res s)[j s := (lastCond s, n + 1)]) = runLength_sum (res s) + 1"
        by blast
      from 1(1) [OF True el same n refl 1(3) _ 1(5) inv'] 1(4)
      obtain s' where
        "cond_loop fc numHours h off (i + 1) (s\<lparr>res := (res s)[j s := (lastCond s, n + 1)]\<rparr>) = Inr s'"
        "enc_inv s'"
        "expand (res s') = expand ((res s)[j s := (lastCond s, n + 1)]) @
              map (\<lambda>k. condition (fc ! nat k)) (window_indices (length fc) numHours h off (i + 1))"
        "runLength_sum (res s') = runLength_sum ((res s)[j s := (lastCond s, n + 1)]) +
              int (length (window_indices (length fc) numHours h off (i + 1)))"
        by auto
      then show ?thesis
        using True el same n ex sm win
        by (simp add: cond_loop.simps [of fc numHours h off i s])
    next
      case diff: False
      let ?s = "\<lparr>lastCond = condition (fc ! nat i), j = j s + 1,
                 res = res s @ [(condition (fc ! nat i), 1)]\<rparr>"
      have inv': "enc_inv ?s" using inv_push [OF 1(6)] diff by simp
      from 1(2) [OF True el diff 1(3) _ 1(5) inv'] 1(4)
      obtain s' where "cond_loop fc numHours h off (i + 1) ?s = Inr s'"
        "enc_inv s'"
        "expand (res s') = expand (res ?s) @
              map (\<lambda>k. condition (fc ! nat k)) (window_indices (length fc) numHours h off (i + 1))"
        "runLength_sum (res s') = runLength_sum (res ?s) +
              int (length (window_indices (length fc) numHours h off (i + 1)))"
        by auto
      then show ?thesis
        using True el diff win
        by (simp add: cond_loop.simps [of fc numHours h off i s] expand_append runLength_sum_append)
           (simp add: expand_def runLength_sum_def)
    qed
  qed
qed

text \<open>The hypotheses of the claims on the encoder, in the form the loop uses.\<close>

lemma coverage:
  assumes "numHours \<le> (int (length fc) - off) * h"
  shows "numHours + off * h \<le> int (length fc) * h"
  using assms by (simp add: algebra_simps)

lemma encoder_spec:
  assumes "1 \<le> h" "0 \<le> off" "1 \<le> numHours" "numHours \<le> (int (length fc) - off) * h"
  shows "\<exists>spans. getConditionListFromForecast fc numHours h off = Inr spans \<and>
           spans \<noteq> [] \<and> distinct_adj (map fst spans) \<and> list_all (\<lambda>p. 1 \<le> snd p) spans \<and>
           expand spans = map condition (requested_window fc numHours h off) \<and>
           runLength_sum spans = int (length (window_indices (length fc) numHours h off off))"
proof -
  have h0: "0 \<le> h" using assms(1) by simp
  note cov = coverage [OF assms(4)]
  have first: "off * h < numHours + off * h" using assms(3) by simp
  note lt = window_go(1) [OF h0 first cov]
  note win = window_go(2) [OF h0 first cov]
  have el: "elem_at fc off = Some (fc ! nat off)" using lt assms(2) by (simp add: elem_at_def)
  let ?s = "\<lparr>lastCond = condition (fc ! nat off), j = 0, res = [(condition (fc ! nat off), 1)]\<rparr>"
  from cond_loop_spec [OF h0 _ cov inv_init, of "off + 1" "condition (fc ! nat off)"] assms(2)
  obtain s' where s': "cond_loop fc numHours h off (off + 1) ?s = Inr s'" "enc_inv s'"
    "expand (res s') = expand (res ?s) @
        map (\<lambda>k. condition (fc ! nat k)) (window_indices (length fc) numHours h off (off + 1))"
    "runLength_sum (res s') = runLength_sum (res ?s) +
        int (length (window_indices (length fc) numHours h off (off + 1)))"
    by auto
  have "getConditionListFromForecast fc numHours h off = Inr (res s')"
    by (simp add: getConditionListFromForecast_def el s'(1))
  moreover have "res s' \<noteq> []" "distinct_adj (map fst (res s'))" "list_all (\<lambda>p. 1 \<le> snd p) (res s')"
    using s'(2) by (simp_all add: enc_inv_def)
  moreover have "expand (res s') = map condition (requested_window fc numHours h off)"
    using s'(3) by (simp add: requested_window_def win expand_def)
  moreover have "runLength_sum (res s') = int (length (window_indices (length fc) numHours h off off))"
    using s'(4) by (simp add: win runLength_sum_def)
  ultimately show ?thesis by blast
qed

section \<open>Integer division\<close>

lemma le_zdiv_iff:
  assumes "0 < (h::int)"
  shows "m \<le> a div h \<longleftrightarrow> m * h \<le> a"
proof
  assume "m \<le> a div h"
  then have "m * h \<le> (a div h) * h" using assms by (simp add: mult_right_mono)
  also have "\<dots> \<le> a"
    using assms by (metis div_mult_mod_eq le_add_same_cancel1 pos_mod_sign)
  finally show "m * h \<le> a" .
next
  assume "m * h \<le> a"
  then have "(m * h) div h \<le> a div h" using assms by (rule zdiv_mono1)
  then show "m \<le> a div h" using assms by simp
qed

lemma ceiling_floor:
  assumes "1 \<le> (h::int)"
  shows "(numHours + h - 1) div h = numHours div h + (if h dvd numHours then 0 else 1)"
proof (cases "h dvd numHours")
  case True
  then obtain q where q: "numHours = h * q" by (auto simp: dvd_def)
  have "(numHours + h - 1) div h = q"
    by (rule int_div_pos_eq [where r = "h - 1"]) (use assms q in simp_all)
  then show ?thesis using True assms q by simp
next
  case False
  have h: "0 < h" using assms by simp
  have "numHours mod h \<noteq> 0" using False by (simp add: dvd_eq_mod_eq_0)
  moreover have "0 \<le> numHours mod h" using h by (rule pos_mod_sign)
  moreover have "numHours mod h < h" using h by (rule pos_mod_bound)
  ultimately have r: "0 < numHours mod h" "numHours mod h < h" by simp_all
  have "(numHours + h - 1) div h = numHours div h + 1"
  proof (rule int_div_pos_eq [where r = "numHours mod h - 1"])
    have "numHours = h * (numHours div h) + numHours mod h" by simp
    then show "numHours + h - 1 = h * (numHours div h + 1) + (numHours mod h - 1)"
      by (simp add: algebra_simps)
  qed (use r in simp_all)
  then show ?thesis using False by simp
qed

lemma within_window_iff:
  assumes "1 \<le> (h::int)"
  shows "k * h < numHours + off * h \<longleftrightarrow> k < off + (numHours + h - 1) div h"
proof -
  have h: "0 < h" using assms by simp
  have "k < off + (numHours + h - 1) div h \<longleftrightarrow> k - off + 1 \<le> (numHours + h - 1) div h"
    by linarith
  also have "\<dots> \<longleftrightarrow> (k - off + 1) * h \<le> numHours + h - 1"
    by (rule le_zdiv_iff [OF h])
  also have "\<dots> \<longleftrightarrow> k * h < numHours + off * h"
    by (auto simp: algebra_simps)
  finally show ?thesis by simp
qed

lemma window_indices_upto:
  assumes "1 \<le> h" "numHours \<le> (int len - off) * h"
  shows "window_indices len numHours h off i = [i..off + (numHours + h - 1) div h - 1]"
proof -
  let ?e = "off + (numHours + h - 1) div h"
  have h: "0 < h" using assms by simp
  have "numHours + h - 1 < (int len - off + 1) * h"
    using assms by (simp add: algebra_simps)
  then have "\<not> (int len - off + 1) * h \<le> numHours + h - 1" by simp
  then have "\<not> int len - off + 1 \<le> (numHours + h - 1) div h"
    by (simp add: le_zdiv_iff [OF h])
  then have e: "?e \<le> int len" by simp
  have "filter (\<lambda>k. k < ?e) [i..int len - 1] = [i..?e - 1]"
  proof (cases "i \<le> ?e - 1")
    case True
    have "[i..int len - 1] = [i..?e - 1] @ [?e - 1 + 1..int len - 1]"
      using True e by (intro upto_split2) simp_all
    then show ?thesis by (auto simp: filter_empty_conv)
  next
    case False
    then show ?thesis by (auto simp: filter_empty_conv)
  qed
  then show ?thesis
    by (simp add: window_indices_def within_window_iff [OF assms(1)])
qed

lemma window_length:
  assumes "1 \<le> h" "1 \<le> numHours" "numHours \<le> (int len - off) * h"
  shows "int (length (window_indices len numHours h off off)) =
         numHours div h + (if h dvd numHours then 0 else 1)"
proof -
  have "0 \<le> numHours div h" using assms by (simp add: pos_imp_zdiv_nonneg_iff)
  then show ?thesis 
    by (simp add: window_indices_upto [OF assms(1,3)] ceiling_floor [OF assms(1)])
qed

section \<open>The extractor's loop\<close>

lemma floor_quot_Num: "h \<noteq> 0 \<Longrightarrow> floor_quot numHours h = Num (numHours div h)"
  by (simp add: floor_quot_def)

lemma div_within_coverage:
  assumes "1 \<le> h" "numHours \<le> (int (length fc) - off) * h"
  shows "numHours div h + off \<le> int (length fc)"
proof -
  have "numHours div h \<le> ((int (length fc) - off) * h) div h"
    using assms by (intro zdiv_mono1) simp_all
  then show ?thesis using assms(1) by simp
qed

text \<open>
  For a divisor other than 0 and a bound inside the array, the loop returns, with one
  entry appended for each index from \<open>i\<close> to the bound.
\<close>

lemma temp_loop_spec:
  assumes "h \<noteq> 0" "0 \<le> i" "numHours div h + off \<le> int (length fc)"
  shows "temp_loop P fc numHours h off i acc =
           Inr (acc @ map (\<lambda>k. \<lparr>hour = formatHour P (datetime (fc ! nat k)),
                                  temperature_label = formatNumber P (temperature (fc ! nat k))\<rparr>)
                        [i..numHours div h + off - 1])"
  using assms
proof (induction P fc numHours h off i acc rule: temp_loop.induct)
  case (1 P fc numHours h off i acc)
  show ?case
  proof (cases "i < numHours div h + off")
    case False
    then show ?thesis
      using 1(2) by (simp add: temp_loop.simps [of P fc numHours h off i acc] floor_quot_Num)
  next
    case True
    then have t: "less_plus i (floor_quot numHours h) off" using 1(2) by (simp add: floor_quot_Num)
    have el: "elem_at fc i = Some (fc ! nat i)" using True 1(3,4) by (simp add: elem_at_def)
    have up: "[i..numHours div h + off - 1] = i # [i + 1..numHours div h + off - 1]"
      using True by (simp add: upto_rec1)
    from 1(1) [OF t el 1(2) _ 1(4)] 1(3) show ?thesis
      using t el by (simp add: temp_loop.simps [of P fc numHours h off i acc] up)
  qed
qed

lemma temp_loop_reads_spec:
  assumes "h \<noteq> 0" "0 \<le> i" "numHours div h + off \<le> int (length fc)"
  shows "temp_loop_reads fc numHours h off i = [i..numHours div h + off - 1]"
  using assms
proof (induction fc numHours h off i rule: temp_loop_reads.induct)
  case (1 fc numHours h off i)
  show ?case
  proof (cases "i < numHours div h + off")
    case False
    then show ?thesis
      using 1(2) by (simp add: temp_loop_reads.simps [of fc numHours h off i] floor_quot_Num)
  next
    case True
    then have t: "less_plus i (floor_quot numHours h) off" using 1(2) by (simp add: floor_quot_Num)
    have el: "elem_at fc i = Some (fc ! nat i)" using True 1(3,4) by (simp add: elem_at_def)
    have up: "[i..numHours div h + off - 1] = i # [i + 1..numHours div h + off - 1]"
      using True by (simp add: upto_rec1)
    from 1(1) [OF t el 1(2) _ 1(4)] 1(3) show ?thesis
      using t el by (simp add: temp_loop_reads.simps [of fc numHours h off i] up)
  qed
qed

section \<open>The reads of the encoder's loop\<close>

lemma in_bounds_Cons:
  "in_bounds fc (k # ks) \<longleftrightarrow> 0 \<le> k \<and> k < int (length fc) \<and> in_bounds fc ks"
  by (simp add: in_bounds_def)

lemma in_bounds_Nil: "in_bounds fc []"
  by (simp add: in_bounds_def)

lemma cond_loop_reads_in_bounds:
  assumes "0 \<le> h" "0 \<le> i" "numHours + off * h \<le> int (length fc) * h"
  shows "in_bounds fc (cond_loop_reads fc numHours h off i s)"
  using assms
proof (induction fc numHours h off i s rule: cond_loop_reads.induct)
  case (1 fc numHours h off i s)
  show ?case
  proof (cases "i * h < numHours + off * h")
    case False
    then show ?thesis
      by (simp add: cond_loop_reads.simps [of fc numHours h off i s] in_bounds_Nil)
  next
    case True
    note lt = window_go(1) [OF 1(3) True 1(5)]
    from lt 1(4) have el: "elem_at fc i = Some (fc ! nat i)" by (simp add: elem_at_def)
    have i1: "0 \<le> i + 1" using 1(4) by simp
    show ?thesis
    proof (cases "condition (fc ! nat i) = lastCond s")
      case same: True
      show ?thesis
      proof (cases "elem_at (res s) (int (j s))")
        case None
        then show ?thesis
          using True el same lt 1(4)
          by (simp add: cond_loop_reads.simps [of fc numHours h off i s] in_bounds_Cons in_bounds_Nil)
      next
        case (Some p)
        obtain c n where p: "p = (c, n)" by (cases p)
        from 1(1) [OF True el same Some p [symmetric] 1(3) i1 1(5)] show ?thesis
          using True el same lt 1(4) Some p
          by (simp add: cond_loop_reads.simps [of fc numHours h off i s] in_bounds_Cons)
      qed
    next
      case diff: False
      from 1(2) [OF True el diff 1(3) i1 1(5)] show ?thesis
        using True el diff lt 1(4)
        by (simp add: cond_loop_reads.simps [of fc numHours h off i s] in_bounds_Cons)
    qed
  qed
qed

text \<open>
  Whatever its arguments, the loop enters its body at most once for each index from \<open>i\<close>
  to the end of the array, and once more if it then reads past the end.
\<close>

lemma cond_loop_reads_length:
  "length (cond_loop_reads fc numHours h off i s) \<le> nat (int (length fc) - i) + 1"
proof (induction fc numHours h off i s rule: cond_loop_reads.induct)
  case (1 fc numHours h off i s)
  show ?case
  proof (cases "i * h < numHours + off * h")
    case False
    then show ?thesis by (simp add: cond_loop_reads.simps [of fc numHours h off i s])
  next
    case True
    show ?thesis
    proof (cases "elem_at fc i")
      case None
      then show ?thesis using True by (simp add: cond_loop_reads.simps [of fc numHours h off i s])
    next
      case (Some fs)
      from elem_at_SomeD [OF Some]
      have step: "nat (int (length fc) - (i + 1)) + 1 = nat (int (length fc) - i)" by linarith
      show ?thesis
      proof (cases "condition fs = lastCond s")
        case same: True
        show ?thesis
        proof (cases "elem_at (res s) (int (j s))")
          case None
          then show ?thesis
            using True Some same by (simp add: cond_loop_reads.simps [of fc numHours h off i s])
        next
          case inner: (Some p)
          obtain c n where p: "p = (c, n)" by (cases p)
          from 1(1) [OF True Some same inner p [symmetric]] step show ?thesis
            using True Some same inner p
            by (simp add: cond_loop_reads.simps [of fc numHours h off i s])
        qed
      next
        case diff: False
        from 1(2) [OF True Some diff] step show ?thesis
          using True Some diff by (simp add: cond_loop_reads.simps [of fc numHours h off i s])
      qed
    qed
  qed
qed

lemma encoder_iterations_le: "encoder_iterations fc numHours h off \<le> length fc"
proof (cases "elem_at fc off")
  case None
  then show ?thesis by (simp add: encoder_iterations_def)
next
  case (Some fs0)
  let ?s = "\<lparr>lastCond = condition fs0, j = 0, res = [(condition fs0, 1)]\<rparr>"
  from elem_at_SomeD [OF Some]
  have "nat (int (length fc) - (off + 1)) + 1 \<le> length fc" by linarith
  with cond_loop_reads_length [of fc numHours h off "off + 1" ?s] show ?thesis
    using Some by (simp add: encoder_iterations_def)
qed

section \<open>Reads and results\<close>

text \<open>
  The lists of reads describe the functions they are taken from: the encoder and the
  extractor return a result exactly when every index they read is within the array,
  and throw otherwise.
\<close>

lemma cond_loop_returns_iff:
  assumes "enc_inv s"
  shows "(\<exists>s'. cond_loop fc numHours h off i s = Inr s') \<longleftrightarrow>
         in_bounds fc (cond_loop_reads fc numHours h off i s)"
  using assms
proof (induction fc numHours h off i s rule: cond_loop.induct)
  case (1 fc numHours h off i s)
  show ?case
  proof (cases "i * h < numHours + off * h")
    case False
    then show ?thesis
      by (simp add: cond_loop.simps [of fc numHours h off i s]
            cond_loop_reads.simps [of fc numHours h off i s] in_bounds_Nil)
  next
    case True
    show ?thesis
    proof (cases "elem_at fc i")
      case None
      then have "\<not> (0 \<le> i \<and> i < int (length fc))" by (simp add: elem_at_def split: if_splits)
      then show ?thesis
        using True None
        by (auto simp: cond_loop.simps [of fc numHours h off i s]
              cond_loop_reads.simps [of fc numHours h off i s] in_bounds_Cons)
    next
      case (Some fs)
      note rng = elem_at_SomeD [OF Some]
      show ?thesis
      proof (cases "condition fs = lastCond s")
        case same: True
        from inv_same [OF 1(3)] obtain n where
          n: "elem_at (res s) (int (j s)) = Some (lastCond s, n)"
          and inv': "enc_inv (s\<lparr>res := (res s)[j s := (lastCond s, n + 1)]\<rparr>)"
          by blast
        from 1(1) [OF True Some same n refl inv'] show ?thesis
          using True Some same n rng
          by (simp add: cond_loop.simps [of fc numHours h off i s]
                cond_loop_reads.simps [of fc numHours h off i s] in_bounds_Cons)
      next
        case diff: False
        have inv': "enc_inv \<lparr>lastCond = condition fs, j = j s + 1,
                            res = res s @ [(condition fs, 1)]\<rparr>"
          using inv_push [OF 1(3)] diff by simp
        from 1(2) [OF True Some diff inv'] show ?thesis
          using True Some diff rng
          by (simp add: cond_loop.simps [of fc numHours h off i s]
                cond_loop_reads.simps [of fc numHours h off i s] in_bounds_Cons)
      qed
    qed
  qed
qed

lemma encoder_returns_iff:
  "(\<exists>spans. getConditionListFromForecast fc numHours h off = Inr spans) \<longleftrightarrow>
   in_bounds fc (encoder_reads fc numHours h off)"
proof (cases "elem_at fc off")
  case None
  then have "\<not> (0 \<le> off \<and> off < int (length fc))" by (simp add: elem_at_def split: if_splits)
  then show ?thesis
    using None by (auto simp: getConditionListFromForecast_def encoder_reads_def in_bounds_Cons)
next
  case (Some fs0)
  let ?s = "\<lparr>lastCond = condition fs0, j = 0, res = [(condition fs0, 1)]\<rparr>"
  have "(\<exists>spans. getConditionListFromForecast fc numHours h off = Inr spans) \<longleftrightarrow>
        (\<exists>s'. cond_loop fc numHours h off (off + 1) ?s = Inr s')"
    using Some by (auto simp: getConditionListFromForecast_def split: sum.splits)
  then show ?thesis
    using Some elem_at_SomeD [OF Some]
      cond_loop_returns_iff [OF inv_init, of fc numHours h off "off + 1" "condition fs0"]
    by (simp add: encoder_reads_def in_bounds_Cons)
qed

lemma temp_loop_returns_iff:
  "(\<exists>ts. temp_loop P fc numHours h off i acc = Inr ts) \<longleftrightarrow>
   in_bounds fc (temp_loop_reads fc numHours h off i)"
proof (induction P fc numHours h off i acc rule: temp_loop.induct)
  case (1 P fc numHours h off i acc)
  show ?case
  proof (cases "less_plus i (floor_quot numHours h) off")
    case False
    then show ?thesis
      by (simp add: temp_loop.simps [of P fc numHours h off i acc]
            temp_loop_reads.simps [of fc numHours h off i] in_bounds_Nil)
  next
    case True
    show ?thesis
    proof (cases "elem_at fc i")
      case None
      then have "\<not> (0 \<le> i \<and> i < int (length fc))" by (simp add: elem_at_def split: if_splits)
      then show ?thesis
        using True None
        by (auto simp: temp_loop.simps [of P fc numHours h off i acc]
              temp_loop_reads.simps [of fc numHours h off i] in_bounds_Cons)
    next
      case (Some fs)
      from 1 [OF True Some] show ?thesis
        using True Some elem_at_SomeD [OF Some]
        by (simp add: temp_loop.simps [of P fc numHours h off i acc]
              temp_loop_reads.simps [of fc numHours h off i] in_bounds_Cons)
    qed
  qed
qed

lemma extractor_returns_iff:
  "(\<exists>ts. getTemperatures P fc numHours h off = Inr ts) \<longleftrightarrow>
   in_bounds fc (temperature_reads fc numHours h off)"
  by (simp add: getTemperatures_def temperature_reads_def temp_loop_returns_iff)

text \<open>
  When the bounds check has passed with a resolution of 0 or less, the loop of the
  encoder does not enter its body at all.
\<close>

lemma encoder_iterations_nonpositive:
  assumes "h \<le> 0" "\<not> numHours > (int (length fc) - off) * h"
  shows "encoder_iterations fc numHours h off = 0"
proof (cases "elem_at fc off")
  case None
  then show ?thesis by (simp add: encoder_iterations_def)
next
  case (Some fs0)
  from elem_at_SomeD [OF Some] have "1 \<le> int (length fc) - off" by simp
  then have "(int (length fc) - off) * h \<le> 1 * h"
    using assms(1) by (intro mult_right_mono_neg) simp_all
  with assms(2) have "\<not> (off + 1) * h < numHours + off * h"
    by (simp add: algebra_simps)
  then show ?thesis
    using Some
    by (simp add: encoder_iterations_def cond_loop_reads.simps [of fc numHours h off "off + 1"])
qed

text \<open>The requested window is a slice of the forecast.\<close>

lemma window_end_le:
  assumes "1 \<le> h" "numHours \<le> (int len - off) * h"
  shows "off + (numHours + h - 1) div h \<le> int len"
proof -
  have h: "0 < h" using assms by simp
  have "numHours + h - 1 < (int len - off + 1) * h"
    using assms by (simp add: algebra_simps)
  then have "\<not> (int len - off + 1) * h \<le> numHours + h - 1" by simp
  then have "\<not> int len - off + 1 \<le> (numHours + h - 1) div h"
    by (simp add: le_zdiv_iff [OF h])
  then show ?thesis by simp
qed

lemma requested_window_slice:
  assumes "1 \<le> h" "0 \<le> off" "1 \<le> numHours" "numHours \<le> (int (length fc) - off) * h"
  shows "requested_window fc numHours h off =
           take (nat (numHours div h + (if h dvd numHours then 0 else 1))) (drop (nat off) fc)"
proof -
  let ?n = "numHours div h + (if h dvd numHours then 0 else 1)"
  have n: "?n = (numHours + h - 1) div h" using ceiling_floor [OF assms(1)] by simp
  have len: "int (length (window_indices (length fc) numHours h off off)) = ?n"
    by (rule window_length [OF assms(1,3,4)])
  have up: "window_indices (length fc) numHours h off off = [off..off + ?n - 1]"
    using window_indices_upto [OF assms(1,4), of off] n by simp
  have n0: "0 \<le> ?n" using len by linarith
  have le: "off + ?n \<le> int (length fc)"
    unfolding n by (rule window_end_le [OF assms(1,4)])
  show ?thesis
  proof (rule nth_equalityI)
    show "length (requested_window fc numHours h off) = length (take (nat ?n) (drop (nat off) fc))"
      using le n0 assms(2) by (simp add: requested_window_def up)
  next
    fix i assume "i < length (requested_window fc numHours h off)"
    then have i: "int i < ?n" using n0 by (simp add: requested_window_def up)
    then have "requested_window fc numHours h off ! i = fc ! nat (off + int i)"
      using n0 by (simp add: requested_window_def up)
    also have "\<dots> = take (nat ?n) (drop (nat off) fc) ! i"
      using i le assms(2) by (simp add: nat_add_distrib)
    finally show "requested_window fc numHours h off ! i = take (nat ?n) (drop (nat off) fc) ! i" .
  qed
qed

section \<open>Claims on the condition run-length encoder\<close>

text \<open>
  C1, as the code has it: for every forecast, \<open>hoursPerSegment \<ge> 1\<close>, \<open>offset \<ge> 0\<close> and
  \<open>numHours \<ge> 1\<close> with \<open>numHours \<le> (forecast.length - offset) * hoursPerSegment\<close>, the
  encoder returns spans whose \<open>runLength\<close> values sum to the ceiling of
  \<open>numHours / hoursPerSegment\<close>: the floor when \<open>hoursPerSegment\<close> divides \<open>numHours\<close>,
  and the floor plus one otherwise.
\<close>

theorem runLength_sum_ceiling:
  assumes "1 \<le> h" "0 \<le> off" "1 \<le> numHours" "numHours \<le> (int (length fc) - off) * h"
  shows "\<exists>spans. getConditionListFromForecast fc numHours h off = Inr spans \<and>
           runLength_sum spans = numHours div h + (if h dvd numHours then 0 else 1)"
  using encoder_spec [OF assms] window_length [OF assms(1,3,4)] by auto

theorem runLength_sum_ceiling_witness:
  "(1::int) \<le> 3 \<and> (0::int) \<le> 1 \<and> (1::int) \<le> 6 \<and> 6 \<le> (int (length forecast_3h) - 1) * 3 \<and>
   (\<exists>spans. getConditionListFromForecast forecast_3h 6 3 1 = Inr spans \<and>
      runLength_sum spans = 6 div 3 + (if (3::int) dvd 6 then 0 else 1))"
  using runLength_sum_ceiling [of 3 1 6 forecast_3h] by (simp add: forecast_3h_def)

text \<open>
  C1 as stated fails: two 3-hour segments are within the window of 4 hours, and
  the floor of 4 / 3 is 1.
\<close>

theorem runLength_sum_floor_counterexample:
  "(1::int) \<le> 3 \<and> (0::int) \<le> 0 \<and> (1::int) \<le> 4 \<and>
   (4::int) \<le> (int (length forecast_3h) - 0) * 3 \<and>
   getConditionListFromForecast forecast_3h 4 3 0 = Inr [(''sunny'', 1), (''cloudy'', 1)] \<and>
   runLength_sum [(''sunny'', 1), (''cloudy'', 1)] = 2 \<and> (4::int) div 3 = 1"
  by (simp add: getConditionListFromForecast_def forecast_3h_def elem_at_def cond_loop.simps
        runLength_sum_def)

text \<open>
  C2: for every forecast, \<open>hoursPerSegment \<ge> 1\<close>, \<open>offset \<ge> 0\<close> and \<open>numHours \<ge> 1\<close> within
  coverage, the encoder returns a span list, not empty, and the conditions of its
  spans, each repeated \<open>runLength\<close> times, are those of the forecast entries of the
  requested window, in order. The window is the slice of the forecast that starts at
  \<open>offset\<close> and holds every segment that begins before the end of the \<open>numHours\<close> hours.
\<close>

theorem expand_spans_window:
  assumes "1 \<le> h" "0 \<le> off" "1 \<le> numHours" "numHours \<le> (int (length fc) - off) * h"
  shows "(\<exists>spans. getConditionListFromForecast fc numHours h off = Inr spans \<and> spans \<noteq> [] \<and>
            expand spans = map condition (requested_window fc numHours h off)) \<and>
         requested_window fc numHours h off =
           take (nat (numHours div h + (if h dvd numHours then 0 else 1))) (drop (nat off) fc)"
  using encoder_spec [OF assms] requested_window_slice [OF assms] by auto

theorem expand_spans_window_witness:
  "(1::int) \<le> 3 \<and> (0::int) \<le> 0 \<and> (1::int) \<le> 7 \<and> 7 \<le> (int (length forecast_3h) - 0) * 3 \<and>
   (\<exists>spans. getConditionListFromForecast forecast_3h 7 3 0 = Inr spans \<and> spans \<noteq> [] \<and>
      expand spans = map condition (requested_window forecast_3h 7 3 0)) \<and>
   requested_window forecast_3h 7 3 0 = forecast_3h"
proof -
  have hyp: "(1::int) \<le> 3" "(0::int) \<le> 0" "(1::int) \<le> 7"
    "7 \<le> (int (length forecast_3h) - 0) * 3"
    by (simp_all add: forecast_3h_def)
  have t: "take (nat (7 div 3 + (if (3::int) dvd 7 then 0 else 1))) (drop (nat 0) forecast_3h)
          = forecast_3h"
    by (simp add: forecast_3h_def)
  from expand_spans_window [OF hyp]
  have "\<exists>spans. getConditionListFromForecast forecast_3h 7 3 0 = Inr spans \<and> spans \<noteq> [] \<and>
          expand spans = map condition (requested_window forecast_3h 7 3 0)"
    and "requested_window forecast_3h 7 3 0 = forecast_3h"
    unfolding t by blast+
  with hyp show ?thesis by blast
qed

text \<open>
  C5: for every forecast and valid inputs, no two consecutive spans of the list the
  encoder returns have the same condition.
\<close>

theorem spans_maximal:
  assumes "1 \<le> h" "0 \<le> off" "1 \<le> numHours" "numHours \<le> (int (length fc) - off) * h"
  shows "\<exists>spans. getConditionListFromForecast fc numHours h off = Inr spans \<and>
           distinct_adj (map fst spans)"
  using encoder_spec [OF assms] by auto

theorem spans_maximal_witness:
  "(1::int) \<le> 3 \<and> (0::int) \<le> 0 \<and> (1::int) \<le> 9 \<and> 9 \<le> (int (length forecast_3h) - 0) * 3 \<and>
   (\<exists>spans. getConditionListFromForecast forecast_3h 9 3 0 = Inr spans \<and>
      distinct_adj (map fst spans))"
  using spans_maximal [of 3 0 9 forecast_3h] by (simp add: forecast_3h_def)

section \<open>Claims on the temperature extractor, on termination and on array reads\<close>

text \<open>
  C6: for every forecast, \<open>hoursPerSegment \<ge> 1\<close>, \<open>offset \<ge> 0\<close> and \<open>numHours\<close> within
  coverage, the temperature extractor returns a sequence of \<open>floor (numHours /
  hoursPerSegment)\<close> entries, one for each forecast index from \<open>offset\<close> to \<open>offset +
  floor (numHours / hoursPerSegment) - 1\<close>, in order. (When \<open>numHours\<close> is negative that
  range of indices is empty, and so is the sequence.)
\<close>

theorem temperatures_per_index:
  assumes "1 \<le> h" "0 \<le> off" "numHours \<le> (int (length fc) - off) * h"
  shows "\<exists>ts. getTemperatures P fc numHours h off = Inr ts \<and>
           length ts = nat (numHours div h) \<and>
           (0 \<le> numHours \<longrightarrow> int (length ts) = numHours div h) \<and>
           ts = map (\<lambda>k. \<lparr>hour = formatHour P (datetime (fc ! nat k)),
                            temperature_label = formatNumber P (temperature (fc ! nat k))\<rparr>)
                  [off..off + numHours div h - 1]"
proof -
  have h: "h \<noteq> 0" using assms(1) by simp
  note b = div_within_coverage [OF assms(1,3)]
  have e: "numHours div h + off - 1 = off + numHours div h - 1" by simp
  have n: "0 \<le> numHours \<Longrightarrow> 0 \<le> numHours div h"
    using assms(1) by (simp add: pos_imp_zdiv_nonneg_iff)
  from temp_loop_spec [OF h assms(2) b, of P "[]"] show ?thesis
    unfolding e using n by (simp add: getTemperatures_def)
qed

theorem temperatures_per_index_witness:
  "(1::int) \<le> 3 \<and> (0::int) \<le> 1 \<and> 6 \<le> (int (length forecast_3h) - 1) * 3 \<and>
   (\<exists>ts. getTemperatures utc_platform forecast_3h 6 3 1 = Inr ts \<and>
      length ts = nat (6 div 3) \<and> (0::int) \<le> 6 \<and> int (length ts) = 6 div 3 \<and>
      ts = map (\<lambda>k. \<lparr>hour = formatHour utc_platform (datetime (forecast_3h ! nat k)),
                       temperature_label =
                         formatNumber utc_platform (temperature (forecast_3h ! nat k))\<rparr>)
             [1..1 + 6 div 3 - 1])"
  using temperatures_per_index [of 3 1 6 forecast_3h utc_platform]
  by (simp add: forecast_3h_def)

text \<open>
  C9: for every forecast and every integer \<open>hoursPerSegment\<close>, zero and negative values
  included, when the bounds check of \<open>render\<close> has passed, the loop of the encoder ends
  after at most \<open>forecast.length\<close> iterations. (The loop is a total function: each
  iteration either reads inside the array and moves to the next index, or throws.)
\<close>

theorem encoder_loop_bounded:
  assumes "\<not> numHours > (int (length fc) - off) * h"
  shows "encoder_iterations fc numHours h off \<le> length fc"
  by (rule encoder_iterations_le)

theorem encoder_loop_bounded_witness:
  "\<not> (- 5 > (int (length forecast_3h) - 0) * (- 1)) \<and>
   encoder_iterations forecast_3h (- 5) (- 1) 0 \<le> length forecast_3h"
  using encoder_loop_bounded [where numHours = "- 5" and fc = forecast_3h and off = 0 and h = "- 1"] by (simp add: forecast_3h_def)

text \<open>
  C10: for every forecast, \<open>numHours \<ge> 1\<close>, \<open>hoursPerSegment \<ge> 1\<close> and \<open>offset \<ge> 0\<close> that
  pass the bounds check, every index the encoder and the temperature extractor read
  lies within the array, so neither throws. The hypothesis \<open>offset \<ge> 0\<close> is needed:
  with three segments of 3 hours, \<open>numHours = 3\<close> and \<open>offset = -1\<close> pass the bounds check,
  and both functions read index \<open>-1\<close> and throw.
\<close>

theorem reads_in_bounds:
  "(1 \<le> numHours \<and> 1 \<le> h \<and> 0 \<le> off \<and> numHours \<le> (int (length fc) - off) * h \<longrightarrow>
      in_bounds fc (encoder_reads fc numHours h off) \<and>
      in_bounds fc (temperature_reads fc numHours h off) \<and>
      (\<exists>spans. getConditionListFromForecast fc numHours h off = Inr spans) \<and>
      (\<exists>ts. getTemperatures P fc numHours h off = Inr ts)) \<and>
   ((1::int) \<le> 3 \<and> 3 \<le> (int (length forecast_3h) - (- 1)) * 3 \<and>
      \<not> in_bounds forecast_3h (encoder_reads forecast_3h 3 3 (- 1)) \<and>
      \<not> in_bounds forecast_3h (temperature_reads forecast_3h 3 3 (- 1)) \<and>
      getConditionListFromForecast forecast_3h 3 3 (- 1) = Inl TypeError \<and>
      getTemperatures P forecast_3h 3 3 (- 1) = Inl TypeError)"
proof (intro conjI impI)
  assume a: "1 \<le> numHours \<and> 1 \<le> h \<and> 0 \<le> off \<and> numHours \<le> (int (length fc) - off) * h"
  then have nh: "1 \<le> numHours" and h: "1 \<le> h" and off: "0 \<le> off"
    and cov: "numHours \<le> (int (length fc) - off) * h" by simp_all
  have h0: "0 \<le> h" and hn: "h \<noteq> 0" using h by simp_all
  note cov' = coverage [OF cov]
  have first: "off * h < numHours + off * h" using nh by simp
  note lt = window_go(1) [OF h0 first cov']
  have el: "elem_at fc off = Some (fc ! nat off)" using lt off by (simp add: elem_at_def)
  have i1: "0 \<le> off + 1" using off by simp
  show "in_bounds fc (encoder_reads fc numHours h off)"
    using cond_loop_reads_in_bounds [OF h0 i1 cov'] lt off
    by (simp add: encoder_reads_def el in_bounds_Cons)
  have "temperature_reads fc numHours h off = [off..numHours div h + off - 1]"
    unfolding temperature_reads_def
    by (rule temp_loop_reads_spec [OF hn off div_within_coverage [OF h cov]])
  then show "in_bounds fc (temperature_reads fc numHours h off)"
    using off div_within_coverage [OF h cov] by (simp add: in_bounds_def list_all_iff)
  show "\<exists>spans. getConditionListFromForecast fc numHours h off = Inr spans"
    using encoder_spec [OF h off nh cov] by blast
  show "\<exists>ts. getTemperatures P fc numHours h off = Inr ts"
    using temp_loop_spec [OF hn off div_within_coverage [OF h cov]]
    by (simp add: getTemperatures_def)
next
  show "\<not> in_bounds forecast_3h (encoder_reads forecast_3h 3 3 (- 1))"
    by (simp add: encoder_reads_def elem_at_def in_bounds_def)
  show "\<not> in_bounds forecast_3h (temperature_reads forecast_3h 3 3 (- 1))"
    by (simp add: temperature_reads_def temp_loop_reads.simps [of _ _ _ _ "- 1"]
          floor_quot_def elem_at_def in_bounds_def)
  show "getConditionListFromForecast forecast_3h 3 3 (- 1) = Inl TypeError"
    by (simp add: getConditionListFromForecast_def elem_at_def)
  show "getTemperatures P forecast_3h 3 3 (- 1) = Inl TypeError"
    by (simp add: getTemperatures_def temp_loop.simps [of _ _ _ _ _ "- 1"]
          floor_quot_def elem_at_def)
qed (simp_all add: forecast_3h_def)

theorem reads_in_bounds_witness:
  "(1::int) \<le> 4 \<and> (1::int) \<le> 3 \<and> (0::int) \<le> 1 \<and> 4 \<le> (int (length forecast_3h) - 1) * 3 \<and>
   in_bounds forecast_3h (encoder_reads forecast_3h 4 3 1) \<and>
   in_bounds forecast_3h (temperature_reads forecast_3h 4 3 1) \<and>
   (\<exists>spans. getConditionListFromForecast forecast_3h 4 3 1 = Inr spans) \<and>
   (\<exists>ts. getTemperatures utc_platform forecast_3h 4 3 1 = Inr ts)"
  using reads_in_bounds [where numHours = 4 and h = 3 and off = 1 and fc = forecast_3h
      and P = utc_platform] by (simp add: forecast_3h_def)

section \<open>Claim on the segment resolution detector\<close>

lemma round_hours_nearest:
  "3600000 * round_hours delta - 1800000 \<le> delta \<and>
   delta < 3600000 * round_hours delta + 1800000"
proof -
  have "delta + 1800000 =
          3600000 * ((delta + 1800000) div 3600000) + (delta + 1800000) mod 3600000"
    by simp
  moreover have "0 \<le> (delta + 1800000) mod 3600000" by simp
  moreover have "(delta + 1800000) mod 3600000 < 3600000" by simp
  ultimately show ?thesis unfolding round_hours_def by linarith
qed

lemma round_hours_exact: "round_hours (N * 3600000) = N"
  unfolding round_hours_def
  by (rule int_div_pos_eq [where r = 1800000]) simp_all

lemma uniform_spacing_first:
  assumes "2 \<le> length fc" "uniform_spacing fc N"
  shows "datetime (fc ! 1) - datetime (fc ! 0) = N * 3600000"
proof -
  from assms(1) obtain a b rest where fc: "fc = a # b # rest"
    by (cases fc; cases "tl fc") auto
  with assms(2) show ?thesis by (simp add: uniform_spacing_def)
qed

text \<open>
  C7: the detector returns 1 for a forecast of fewer than 2 entries; for a forecast of
  at least 2 entries it returns the time from the first timestamp to the second, in
  hours, rounded to the nearest integer (a tie goes up); so for a forecast with a
  uniform spacing of \<open>N\<close> hours it returns \<open>N\<close>.
\<close>

theorem determineHoursPerSegment_rounds:
  "(length fc < 2 \<longrightarrow> determineHoursPerSegment fc = 1) \<and>
   (2 \<le> length fc \<longrightarrow>
      3600000 * determineHoursPerSegment fc - 1800000 \<le> datetime (fc ! 1) - datetime (fc ! 0) \<and>
      datetime (fc ! 1) - datetime (fc ! 0) < 3600000 * determineHoursPerSegment fc + 1800000) \<and>
   (2 \<le> length fc \<and> uniform_spacing fc N \<longrightarrow> determineHoursPerSegment fc = N)"
proof (intro conjI impI)
  assume "length fc < 2"
  then show "determineHoursPerSegment fc = 1" by (simp add: determineHoursPerSegment_def)
next
  assume "2 \<le> length fc"
  then have d: "determineHoursPerSegment fc = round_hours (datetime (fc ! 1) - datetime (fc ! 0))"
    by (simp add: determineHoursPerSegment_def)
  show "3600000 * determineHoursPerSegment fc - 1800000 \<le> datetime (fc ! 1) - datetime (fc ! 0)"
    and "datetime (fc ! 1) - datetime (fc ! 0) < 3600000 * determineHoursPerSegment fc + 1800000"
    unfolding d using round_hours_nearest [of "datetime (fc ! 1) - datetime (fc ! 0)"] by simp_all
next
  assume a: "2 \<le> length fc \<and> uniform_spacing fc N"
  then have "determineHoursPerSegment fc = round_hours (datetime (fc ! 1) - datetime (fc ! 0))"
    by (simp add: determineHoursPerSegment_def)
  also have "\<dots> = N"
    using a uniform_spacing_first [of fc N] by (simp add: round_hours_exact)
  finally show "determineHoursPerSegment fc = N" .
qed

theorem determineHoursPerSegment_rounds_witness:
  "length forecast_single < 2 \<and> determineHoursPerSegment forecast_single = 1 \<and>
   2 \<le> length forecast_3h \<and> uniform_spacing forecast_3h 3 \<and>
   3600000 * determineHoursPerSegment forecast_3h - 1800000
     \<le> datetime (forecast_3h ! 1) - datetime (forecast_3h ! 0) \<and>
   datetime (forecast_3h ! 1) - datetime (forecast_3h ! 0)
     < 3600000 * determineHoursPerSegment forecast_3h + 1800000 \<and>
   determineHoursPerSegment forecast_3h = 3"
  using determineHoursPerSegment_rounds [where fc = forecast_single]
    determineHoursPerSegment_rounds [where fc = forecast_3h and N = 3]
  by (simp add: forecast_single_def forecast_3h_def uniform_spacing_def)

section \<open>Claim on the color configuration validator\<close>

lemma Map_set_fresh: "k \<notin> fst ` set m \<Longrightarrow> Map_set m k v = m @ [(k, v)]"
  by (induction m) auto

text \<open>The validator splits the entries by the test of \<open>isValidColor\<close>, in input order.\<close>

lemma color_fold:
  assumes "distinct (map fst (vc @ cfg))"
  shows "foldl (color_step P) (vc, ws) cfg =
           (vc @ filter (\<lambda>kv. isValidColor P (fst kv) (snd kv)) cfg,
            ws @ map warning_text (filter (\<lambda>kv. \<not> isValidColor P (fst kv) (snd kv)) cfg))"
  using assms
proof (induction cfg arbitrary: vc ws)
  case Nil
  then show ?case by simp
next
  case (Cons kv cfg)
  obtain k v where kv: "kv = (k, v)" by (cases kv)
  show ?case
  proof (cases "isValidColor P k v")
    case True
    have fresh: "k \<notin> fst ` set vc" using Cons.prems kv by auto
    have "distinct (map fst ((vc @ [(k, v)]) @ cfg))" using Cons.prems kv by auto
    from Cons.IH [OF this] show ?thesis
      using True by (simp add: kv color_step_def Map_set_fresh [OF fresh])
  next
    case False
    have "distinct (map fst (vc @ cfg))" using Cons.prems by auto
    from Cons.IH [OF this] show ?thesis
      using False by (simp add: kv color_step_def warning_text_def)
  qed
qed

lemma getColorSettings_split:
  assumes "distinct (map fst cfg)"
  shows "getColorSettings P (Some cfg) =
        \<lparr>validColors = Some (filter (\<lambda>kv. isValidColor P (fst kv) (snd kv)) cfg),
         warnings = map warning_text (filter (\<lambda>kv. \<not> isValidColor P (fst kv) (snd kv)) cfg)\<rparr>"
  using color_fold [of "[]" cfg P "[]"] assms by (simp add: getColorSettings_def)

lemma getColorSettings_absent:
  "getColorSettings P None = \<lparr>validColors = None, warnings = []\<rparr>"
  by (simp add: getColorSettings_def)

text \<open>
  The test of the code and that of the specification agree on every key that does not
  name an inherited property, so there the entries are split as the specification says.
\<close>

lemma isValidColor_acceptable:
  "k \<notin> set Object_prototype_names \<Longrightarrow> isValidColor P k v = acceptable P (k, v)"
  by (simp add: isValidColor_def acceptable_def has_property_def)

lemma getColorSettings_own_keys:
  assumes "distinct (map fst cfg)" "fst ` set cfg \<inter> set Object_prototype_names = {}"
  shows "getColorSettings P (Some cfg) =
        \<lparr>validColors = Some (filter (acceptable P) cfg),
         warnings = map warning_text (filter (\<lambda>kv. \<not> acceptable P kv) cfg)\<rparr>"
proof -
  have "isValidColor P (fst kv) (snd kv) = acceptable P kv" if "kv \<in> set cfg" for kv
    using that assms(2) isValidColor_acceptable [of "fst kv" P "snd kv"] by auto
  then have "filter (\<lambda>kv. isValidColor P (fst kv) (snd kv)) cfg = filter (acceptable P) cfg"
    and "filter (\<lambda>kv. \<not> isValidColor P (fst kv) (snd kv)) cfg
           = filter (\<lambda>kv. \<not> acceptable P kv) cfg"
    by (auto intro: filter_cong)
  then show ?thesis using getColorSettings_split [OF assms(1), of P] by simp
qed

text \<open>
  C8: for an absent color configuration the validator returns \<open>validColors\<close> undefined and
  no warnings; for a present one, each entry is placed in \<open>validColors\<close> if and only if
  its key is a recognized condition identifier and its color parses, and is otherwise
  appended to \<open>warnings\<close> as \<open>key: value\<close>. The code does not do so at a key that names an
  inherited property: \<open>isValidColor\<close> tests \<open>key in ICONS\<close>, which holds for \<open>toString\<close>
  whatever the table holds. With the icons \<open>sunny\<close> and \<open>cloudy\<close>, the entry
  \<open>toString: red\<close> is not acceptable, and yet is placed in \<open>validColors\<close>, with no warning.
\<close>

theorem getColorSettings_inherited_key:
  "''toString'' \<notin> set (ICONS utc_platform) \<and>
   \<not> acceptable utc_platform (''toString'', ''red'') \<and>
   getColorSettings utc_platform (Some inherited_colors) =
     \<lparr>validColors = Some [(''toString'', ''red'')], warnings = []\<rparr>"
  by (simp add: utc_platform_def acceptable_def inherited_colors_def getColorSettings_def
        color_step_def isValidColor_def has_property_def Object_prototype_names_def)

section \<open>Claim on the bounds check of render\<close>

text \<open>
  C4: for every forecast and configuration, if \<open>numHours > (forecast.length - offset) *
  hoursPerSegment\<close>, with the resolution \<open>render\<close> detects, then \<open>render\<close> returns the
  request error, which carries no span list and no temperature list. It does so also
  where the encoder, had it run, would have thrown.
\<close>

theorem render_too_many_hours:
  assumes "states (entity config) = Some fc"
    and "numHours = (case num_hours config of None \<Rightarrow> 12 | Some n \<Rightarrow> n)"
    and "off = (case offset config of None \<Rightarrow> 0 | Some n \<Rightarrow> n)"
    and "numHours > (int (length fc) - off) * determineHoursPerSegment fc"
  shows "\<exists>r. render P states config = Inr r \<and>
           r = ErrorCard (localize P ''errors.too_many_hours_requested'') \<and>
           rendered_conditions r = None \<and> rendered_temperatures r = None"
  using assms by (simp add: render_def)

theorem render_too_many_hours_witness:
  "example_states (entity example_config) = Some forecast_3h \<and>
   (12::int) = (case num_hours example_config of None \<Rightarrow> 12 | Some n \<Rightarrow> n) \<and>
   (5::int) = (case offset example_config of None \<Rightarrow> 0 | Some n \<Rightarrow> n) \<and>
   12 > (int (length forecast_3h) - 5) * determineHoursPerSegment forecast_3h \<and>
   getConditionListFromForecast forecast_3h 12 (determineHoursPerSegment forecast_3h) 5
     = Inl TypeError \<and>
   (\<exists>r. render utc_platform example_states example_config = Inr r \<and>
      r = ErrorCard (localize utc_platform ''errors.too_many_hours_requested'') \<and>
      rendered_conditions r = None \<and> rendered_temperatures r = None)"
proof -
  have a: "example_states (entity example_config) = Some forecast_3h"
    by (simp add: example_states_def example_config_def)
  have b: "(12::int) = (case num_hours example_config of None \<Rightarrow> 12 | Some n \<Rightarrow> n)"
    by (simp add: example_config_def)
  have c: "(5::int) = (case offset example_config of None \<Rightarrow> 0 | Some n \<Rightarrow> n)"
    by (simp add: example_config_def)
  have h: "determineHoursPerSegment forecast_3h = 3"
    by (simp add: forecast_3h_def determineHoursPerSegment_def round_hours_def)
  have d: "12 > (int (length forecast_3h) - 5) * determineHoursPerSegment forecast_3h"
    unfolding h by (simp add: forecast_3h_def)
  have e: "getConditionListFromForecast forecast_3h 12 (determineHoursPerSegment forecast_3h) 5
             = Inl TypeError"
    unfolding h by (simp add: getConditionListFromForecast_def elem_at_def forecast_3h_def)
  from render_too_many_hours [where states = example_states and config = example_config
      and fc = forecast_3h and numHours = 12 and off = 5 and P = utc_platform, OF a b c d]
    a b c d e
  show ?thesis by blast
qed

section \<open>Claim on the daily-forecast classifier\<close>

lemma Set_add_fold:
  "distinct acc \<Longrightarrow>
   distinct (foldl Set_add acc xs) \<and> set (foldl Set_add acc xs) = set acc \<union> set xs"
  by (induction xs arbitrary: acc) (auto simp: Set_add_def)

lemma Set_new_size: "length (Set_new xs) = card (set xs)"
proof -
  from Set_add_fold [of "[]" xs]
  have "distinct (Set_new xs)" and "set (Set_new xs) = set xs" by (simp_all add: Set_new_def)
  then show ?thesis using distinct_card [of "Set_new xs"] by simp
qed

text \<open>What the classifier counts is the days of the month.\<close>

lemma isForecastDaily_card:
  "isForecastDaily P fc \<longleftrightarrow>
     int (card (set (map (\<lambda>f. getDate P (datetime f)) fc))) \<ge> int (length fc) - 1"
  by (simp add: isForecastDaily_def Set_new_size)

text \<open>
  Where no two calendar days of the forecast have the same day of the month, the
  classifier answers as the specification says.
\<close>

lemma isForecastDaily_calendar_days:
  assumes "inj_on DateFromDay (set (calendar_days P fc))"
  shows "isForecastDaily P fc \<longleftrightarrow>
           int (length (calendar_days P fc)) \<ge> int (length fc) - 1"
proof -
  let ?days = "(\<lambda>f. Day (LocalTime P (datetime f))) ` set fc"
  have "set (map (\<lambda>f. getDate P (datetime f)) fc) = DateFromDay ` ?days"
    by (auto simp: getDate_def)
  moreover have "card (DateFromDay ` ?days) = card ?days"
    using assms by (intro card_image) (simp add: calendar_days_def)
  moreover have "length (calendar_days P fc) = card ?days"
    by (simp add: calendar_days_def length_remdups_card_conv)
  ultimately show ?thesis by (simp add: isForecastDaily_card)
qed

text \<open>Three equal elements leave at most \<open>length xs - 2\<close> distinct values.\<close>

lemma card_three_equal:
  assumes "a < b" "b < c" "c < length xs" "xs ! a = xs ! b" "xs ! b = xs ! c"
  shows "card (set xs) + 2 \<le> length xs"
proof -
  let ?I = "{..<length xs} - {b, c}"
  have "set xs \<subseteq> (\<lambda>n. xs ! n) ` ?I"
  proof
    fix x assume "x \<in> set xs"
    then obtain n where n: "n < length xs" "xs ! n = x" by (auto simp: in_set_conv_nth)
    show "x \<in> (\<lambda>n. xs ! n) ` ?I"
    proof (cases "n = b \<or> n = c")
      case True
      then have "xs ! a = x" using n assms by auto
      moreover have "a \<in> ?I" using assms by auto
      ultimately show ?thesis by blast
    next
      case False
      then have "n \<in> ?I" using n by auto
      then show ?thesis using n by blast
    qed
  qed
  then have "card (set xs) \<le> card ((\<lambda>n. xs ! n) ` ?I)"
    by (intro card_mono) auto
  also have "\<dots> \<le> card ?I" by (intro card_image_le) auto
  also have "card ?I = length xs - 2"
    using assms by (simp add: card_Diff_subset)
  finally show ?thesis using assms by linarith
qed

text \<open>A forecast with three entries on one calendar day is not classified daily.\<close>

lemma isForecastDaily_same_day:
  assumes "a < b" "b < c" "c < length fc"
    and "Day (LocalTime P (datetime (fc ! a))) = Day (LocalTime P (datetime (fc ! b)))"
    and "Day (LocalTime P (datetime (fc ! b))) = Day (LocalTime P (datetime (fc ! c)))"
  shows "\<not> isForecastDaily P fc"
proof -
  let ?xs = "map (\<lambda>f. getDate P (datetime f)) fc"
  have "a < b" "b < c" "c < length ?xs" "?xs ! a = ?xs ! b" "?xs ! b = ?xs ! c"
    using assms by (simp_all add: getDate_def)
  from card_three_equal [OF this] have "card (set ?xs) + 2 \<le> length fc" by simp
  then show ?thesis unfolding isForecastDaily_card by linarith
qed

text \<open>
  C3: the classifier returns true if and only if the number of distinct calendar days
  across all entries is at least \<open>forecast.length - 1\<close>; in particular a forecast whose
  entries all fall on distinct calendar days is classified daily. The code does not do
  so: it counts the days of the month that \<open>getDate\<close> gives, which repeat from one month
  to the next. A daily feed of 33 entries, from 1 January to 2 February 1970, has 33
  distinct calendar days and 31 distinct days of the month, and is not classified daily.
\<close>

theorem isForecastDaily_daily_feed_33:
  "length (daily_feed 33) = 33 \<and>
   distinct (map (\<lambda>f. Day (LocalTime utc_platform (datetime f))) (daily_feed 33)) \<and>
   length (calendar_days utc_platform (daily_feed 33)) = 33 \<and>
   length (month_days utc_platform (daily_feed 33)) = 31 \<and>
   \<not> isForecastDaily utc_platform (daily_feed 33)"
  by code_simp

end
